theory Spec2Isabelle
  imports Complex_Main "HOL-Library.Sublist"
begin

section \<open>Strings and integers as the Python code uses them\<close>

text \<open>
  A Python \<open>str\<close> is modelled as a \<open>string\<close> whose characters are the code points
  below 256. Every failure of the modelled functions is one of two Python exceptions.
\<close>

datatype py_error = ValueError | IndexError

text \<open>\<open>str.isspace\<close> on one character, for the code points below 256.\<close>

definition isspace :: "char \<Rightarrow> bool" where
  "isspace c \<longleftrightarrow> c \<in> set [CHR 0x09, CHR 0x0A, CHR 0x0B, CHR 0x0C, CHR 0x0D,
     CHR 0x1C, CHR 0x1D, CHR 0x1E, CHR 0x1F, CHR 0x20, CHR 0x85, CHR 0xA0]"

text \<open>\<open>s.strip()\<close>: leading and trailing whitespace removed.\<close>

definition py_strip :: "string \<Rightarrow> string" where
  "py_strip s = rev (dropWhile isspace (rev (dropWhile isspace s)))"

text \<open>
  \<open>s.split(sep)\<close> with an explicit separator: the string is cut at every occurrence of
  \<open>sep\<close>, found from left to right without overlap; the result has at least one field.
  (Python raises on an empty separator; the sources only pass literals of length 1 to 4.)
\<close>

function py_split :: "string \<Rightarrow> string \<Rightarrow> string list" where
  "py_split sep [] = [[]]"
| "py_split sep (c # cs) =
     (if sep \<noteq> [] \<and> prefix sep (c # cs)
      then [] # py_split sep (drop (length sep) (c # cs))
      else (case py_split sep cs of
              f # fs \<Rightarrow> (c # f) # fs
            | [] \<Rightarrow> [[c]]))"
  by pat_completeness auto
termination
  by (relation "measure (\<lambda>(sep, s). length s)") (auto simp: neq_Nil_conv)

text \<open>Decimal digits.\<close>

definition is_digit :: "char \<Rightarrow> bool" where
  "is_digit c \<longleftrightarrow> c \<in> set ''0123456789''"

definition digit_val :: "char \<Rightarrow> nat" where
  "digit_val c = of_char c - 48"

definition digit_char :: "nat \<Rightarrow> char" where
  "digit_char n = ''0123456789'' ! n"

text \<open>\<open>str(n)\<close> for a non-negative integer: its decimal digits, no leading zero.\<close>

function str_nat :: "nat \<Rightarrow> string" where
  "str_nat n = (if n < 10 then [digit_char n] else str_nat (n div 10) @ [digit_char (n mod 10)])"
  by pat_completeness auto
termination
  by (relation "measure id") auto

declare str_nat.simps [simp del]

text \<open>
  The format specification \<open>02\<close> of an f-string applied to an integer: sign-aware zero
  padding to a minimum width of 2. A negative number carries its sign inside the width, so
  its digits are never padded.
\<close>

definition format_02 :: "int \<Rightarrow> string" where
  "format_02 x =
     (if x < 0 then CHR ''-'' # str_nat (nat (- x))
      else replicate (2 - length (str_nat (nat x))) CHR ''0'' @ str_nat (nat x))"

text \<open>
  \<open>int(s)\<close> on a string: surrounding whitespace is ignored, one sign is allowed, and the
  digits may be grouped by single underscores (\<open>digit ("_"? digit)*\<close>). Anything else
  raises \<open>ValueError\<close>. \<open>parse_digits acc cs\<close> reads the rest of the digits after at least
  one digit has been read.
\<close>

fun parse_digits :: "nat \<Rightarrow> string \<Rightarrow> nat option" where
  "parse_digits acc [] = Some acc"
| "parse_digits acc [c] = (if is_digit c then Some (10 * acc + digit_val c) else None)"
| "parse_digits acc (c # d # ds) =
     (if is_digit c then parse_digits (10 * acc + digit_val c) (d # ds)
      else if c = CHR ''_'' \<and> is_digit d then parse_digits (10 * acc + digit_val d) ds
      else None)"

definition parse_nat :: "string \<Rightarrow> nat option" where
  "parse_nat s = (case s of [] \<Rightarrow> None
                  | c # cs \<Rightarrow> if is_digit c then parse_digits (digit_val c) cs else None)"

definition py_int :: "string \<Rightarrow> py_error + int" where
  "py_int s =
     (case py_strip s of
        [] \<Rightarrow> Inl ValueError
      | c # cs \<Rightarrow>
          if c = CHR ''-'' then
            (case parse_nat cs of None \<Rightarrow> Inl ValueError | Some n \<Rightarrow> Inr (- int n))
          else if c = CHR ''+'' then
            (case parse_nat cs of None \<Rightarrow> Inl ValueError | Some n \<Rightarrow> Inr (int n))
          else
            (case parse_nat (c # cs) of None \<Rightarrow> Inl ValueError | Some n \<Rightarrow> Inr (int n)))"

section \<open>utils.py: durations\<close>

text \<open>
  \<open>seconds_to_formatted_time\<close> on an integer argument. Python's \<open>//\<close> and \<open>%\<close> on integers
  are floor division and its remainder, as \<open>div\<close> and \<open>mod\<close> on \<open>int\<close> are; \<open>int(...)\<close> of
  an integer is the integer itself.
\<close>

definition seconds_to_formatted_time :: "int \<Rightarrow> string" where
  "seconds_to_formatted_time seconds =
     (let hours = seconds div 3600;
          minutes = (seconds mod 3600) div 60;
          secs = seconds mod 60
      in format_02 hours @ '':'' @ format_02 minutes @ '':'' @ format_02 secs)"

text \<open>
  \<open>formatted_time_to_seconds\<close>: the three-name unpacking of \<open>map(int, s.split(":"))\<close>
  raises \<open>ValueError\<close> when the number of fields is not three, and \<open>int\<close> raises
  \<open>ValueError\<close> on a field that is no integer literal.
\<close>

definition formatted_time_to_seconds :: "string \<Rightarrow> py_error + int" where
  "formatted_time_to_seconds formatted_time =
     (case py_split '':'' formatted_time of
        [h, m, s] \<Rightarrow>
          (case py_int h of Inl e \<Rightarrow> Inl e | Inr hours \<Rightarrow>
            (case py_int m of Inl e \<Rightarrow> Inl e | Inr minutes \<Rightarrow>
              (case py_int s of Inl e \<Rightarrow> Inl e | Inr seconds \<Rightarrow>
                 Inr (hours * 3600 + minutes * 60 + seconds))))
      | _ \<Rightarrow> Inl ValueError)"

section \<open>utils.py: file sizes\<close>

definition units :: "string list" where
  "units = [''B'', ''KB'', ''MB'', ''GB'', ''TB'']"






text \<open>
  \<open>s.split()\<close> without a separator: the maximal runs of characters that are not whitespace.
\<close>

function py_split_ws :: "string \<Rightarrow> string list" where
  "py_split_ws s =
     (let t = dropWhile isspace s
      in if t = [] then []
         else takeWhile (\<lambda>c. \<not> isspace c) t # py_split_ws (dropWhile (\<lambda>c. \<not> isspace c) t))"
  by pat_completeness auto
termination
proof (relation "measure length", goal_cases)
  case 1
  show ?case by simp
next
  case (2 s t)
  then obtain c cs where t: "dropWhile isspace s = c # cs" and c: "\<not> isspace c"
    by (metis dropWhile_eq_Nil_conv hd_dropWhile list.collapse)
  have "length (dropWhile (\<lambda>c. \<not> isspace c) (c # cs)) \<le> length cs"
    using c by (simp add: length_dropWhile_le)
  also have "\<dots> < length (c # cs)" by simp
  also have "\<dots> \<le> length s"
    unfolding t [symmetric] by (rule length_dropWhile_le)
  finally show ?case using 2 t by simp
qed

declare py_split_ws.simps [simp del]

text \<open>\<open>xs.index(x)\<close>: the first position of \<open>x\<close>, or \<open>ValueError\<close> (here \<open>None\<close>).\<close>

fun index_of :: "'a list \<Rightarrow> 'a \<Rightarrow> nat option" where
  "index_of [] x = None"
| "index_of (y # ys) x = (if y = x then Some 0 else map_option Suc (index_of ys x))"

text \<open>\<open>int(x)\<close> of a \<open>float\<close>: the fractional part is dropped, towards zero.\<close>

definition trunc :: "rat \<Rightarrow> int" where
  "trunc x = (if 0 \<le> x then \<lfloor>x\<rfloor> else \<lceil>x\<rceil>)"

text \<open>
  \<open>formatted_size_to_bytes\<close>. The builtin \<open>float\<close> is a parameter \<open>py_float\<close>: it gives the
  value of a literal, or \<open>None\<close> where \<open>float\<close> raises \<open>ValueError\<close>. The two-name unpacking
  raises \<open>ValueError\<close> unless there are exactly two tokens, and so does \<open>index\<close> on an unknown
  unit.
\<close>

definition formatted_size_to_bytes :: "(string \<Rightarrow> rat option) \<Rightarrow> string \<Rightarrow> py_error + int" where
  "formatted_size_to_bytes py_float formatted_size =
     (case py_split_ws formatted_size of
        [size_str, unit_str] \<Rightarrow>
          (case py_float size_str of
             None \<Rightarrow> Inl ValueError
           | Some size_val \<Rightarrow>
               (case index_of units unit_str of
                  None \<Rightarrow> Inl ValueError
                | Some unit_index \<Rightarrow> Inr (trunc (size_val * 1024 ^ unit_index))))
      | _ \<Rightarrow> Inl ValueError)"

text \<open>
  An instance of \<open>py_float\<close> for plain literals \<open>digits\<close> or \<open>digits.digits\<close>, read as the
  exact decimal. It agrees with \<open>float\<close> on every such literal that a binary floating-point
  number represents exactly, such as \<open>2.5\<close> or \<open>1.75\<close>.
\<close>

definition decimal_literal :: "string \<Rightarrow> rat option" where
  "decimal_literal s =
     (case py_split ''.'' s of
        [a] \<Rightarrow> (if a \<noteq> [] \<and> list_all is_digit a
                then map_option of_nat (parse_nat a) else None)
      | [a, b] \<Rightarrow> (if a \<noteq> [] \<and> b \<noteq> [] \<and> list_all is_digit (a @ b)
                   then map_option (\<lambda>n. of_nat n / 10 ^ length b) (parse_nat (a @ b)) else None)
      | _ \<Rightarrow> None)"

section \<open>file_utils.py: unique file names\<close>

text \<open>
  The file system enters through the predicate \<open>exists\<close> (\<open>os.path.exists\<close>) and the path
  library through \<open>splitext\<close> (\<open>os.path.splitext\<close>). \<open>numbered_path\<close> is the f-string
  \<open>f"{base_name} ({counter}){extension}"\<close>.
\<close>

definition numbered_path :: "string \<Rightarrow> string \<Rightarrow> nat \<Rightarrow> string" where
  "numbered_path base_name extension counter =
     base_name @ '' ('' @ str_nat counter @ '')'' @ extension"

text \<open>
  The \<open>while\<close> loop has no bound: on a file system where every numbered path exists it
  never returns, which is the value \<open>None\<close>.
\<close>

partial_function (option) unique_loop ::
  "(string \<Rightarrow> bool) \<Rightarrow> string \<Rightarrow> string \<Rightarrow> string \<Rightarrow> nat \<Rightarrow> string option" where
  "unique_loop exists base_name extension unique_path counter =
     (if exists unique_path
      then unique_loop exists base_name extension
             (numbered_path base_name extension counter) (counter + 1)
      else Some unique_path)"

definition get_unique_file_name ::
  "(string \<Rightarrow> string \<times> string) \<Rightarrow> (string \<Rightarrow> bool) \<Rightarrow> string \<Rightarrow> string option" where
  "get_unique_file_name splitext exists file_path =
     (case splitext file_path of
        (base_name, extension) \<Rightarrow> unique_loop exists base_name extension file_path 1)"

text \<open>
  An instance of \<open>splitext\<close>, after the POSIX version of the library function: the extension
  starts at the last dot of the last path component, unless only dots precede it there.
\<close>

definition rfind :: "char \<Rightarrow> string \<Rightarrow> nat option" where
  "rfind c p =
     (if c \<in> set p then Some (length p - 1 - length (takeWhile (\<lambda>x. x \<noteq> c) (rev p)))
      else None)"

definition posix_splitext :: "string \<Rightarrow> string \<times> string" where
  "posix_splitext p =
     (let name_start = (case rfind CHR ''/'' p of None \<Rightarrow> 0 | Some i \<Rightarrow> i + 1)
      in case rfind CHR ''.'' p of
           None \<Rightarrow> (p, [])
         | Some d \<Rightarrow>
             if name_start \<le> d \<and>
                (\<exists>c \<in> set (take (d - name_start) (drop name_start p)). c \<noteq> CHR ''.'')
             then (take d p, drop d p)
             else (p, []))"

section \<open>file_utils.py: song blocks\<close>

record song =
  song_name :: string
  artist_name :: string
  artist_link :: string
  licenses :: "string list"

text \<open>
  \<open>parse_text_block_into_song\<close>. An index beyond the end of a list raises \<open>IndexError\<close>:
  \<open>song_info[1]\<close> when the first line has no \<open>" by "\<close>, and \<open>artist_info[1]\<close> when
  \<open>song_info[1]\<close> has no \<open>" | "\<close>. The slice \<open>lines[1:4]\<close> never raises.
\<close>

definition parse_text_block_into_song :: "string \<Rightarrow> py_error + song" where
  "parse_text_block_into_song text =
     (let lines = py_split [CHR 0x0A] (py_strip text)
      in case lines of
           [] \<Rightarrow> Inl IndexError
         | line0 # _ \<Rightarrow>
             (case py_split '' by '' line0 of
                s0 # s1 # _ \<Rightarrow>
                  (case py_split '' | '' s1 of
                     a0 # a1 # _ \<Rightarrow>
                       Inr \<lparr>song_name = py_strip s0,
                            artist_name = py_strip a0,
                            artist_link = py_strip a1,
                            licenses = map py_strip (take 3 (drop 1 lines))\<rparr>
                   | _ \<Rightarrow> Inl IndexError)
              | _ \<Rightarrow> Inl IndexError))"

section \<open>Notions used to state the properties\<close>

text \<open>The number a string of decimal digits denotes, read from the left onto \<open>acc\<close>.\<close>

definition digits_value :: "nat \<Rightarrow> string \<Rightarrow> nat" where
  "digits_value acc ds = foldl (\<lambda>a c. 10 * a + digit_val c) acc ds"

text \<open>
  The specification's rendering of one field of a duration: the decimal digits of the
  number, zero-padded to at least two digits.
\<close>

definition zero_padded :: "nat \<Rightarrow> string" where
  "zero_padded n = (if n < 10 then CHR ''0'' # str_nat n else str_nat n)"

text \<open>
  The text before and the text after the first occurrence of a separator. Without an
  occurrence the whole string is before it and nothing is after it.
\<close>

fun before_first :: "string \<Rightarrow> string \<Rightarrow> string" where
  "before_first sep [] = []"
| "before_first sep (c # cs) = (if prefix sep (c # cs) then [] else c # before_first sep cs)"

fun after_first :: "string \<Rightarrow> string \<Rightarrow> string" where
  "after_first sep [] = []"
| "after_first sep (c # cs) =
     (if prefix sep (c # cs) then drop (length sep) (c # cs) else after_first sep cs)"

text \<open>
  The header of a block is the first line of the trimmed block. The artist part of a header
  is the text between its first \<open>" by "\<close> and the next \<open>" by "\<close>, or the end of the header
  when there is no second one.
\<close>

definition header_line :: "string \<Rightarrow> string" where
  "header_line text = before_first [CHR 0x0A] (py_strip text)"

definition artist_part :: "string \<Rightarrow> string" where
  "artist_part line = before_first '' by '' (after_first '' by '' line)"

section \<open>Digits, stripping and splitting\<close>

lemma digit_val_digit_char: "d < 10 \<Longrightarrow> digit_val (digit_char d) = d"
proof -
  assume "d < 10"
  then have "d \<in> {0,1,2,3,4,5,6,7,8,9}" by auto
  then show ?thesis by (auto simp: digit_val_def digit_char_def)
qed

lemma is_digit_digit_char: "d < 10 \<Longrightarrow> is_digit (digit_char d)"
proof -
  assume "d < 10"
  then have "d \<in> {0,1,2,3,4,5,6,7,8,9}" by auto
  then show ?thesis by (auto simp: is_digit_def digit_char_def)
qed

lemma is_digit_not_space: "is_digit c \<Longrightarrow> \<not> isspace c"
  by (auto simp: is_digit_def isspace_def)

lemma is_digit_cases: "is_digit c \<Longrightarrow> c \<noteq> CHR '':'' \<and> c \<noteq> CHR ''-'' \<and> c \<noteq> CHR ''+'' \<and> c \<noteq> CHR ''_''"
  by (auto simp: is_digit_def)

lemma str_nat_digits: "list_all is_digit (str_nat n)"
  by (induction n rule: str_nat.induct) (subst str_nat.simps, simp add: is_digit_digit_char)

lemma str_nat_not_Nil: "str_nat n \<noteq> []"
  by (subst str_nat.simps) simp

lemma parse_digits_all_digits:
  "list_all is_digit cs \<Longrightarrow> parse_digits acc cs = Some (digits_value acc cs)"
  by (induction acc cs rule: parse_digits.induct) (auto simp: digits_value_def)

lemma digits_value_str_nat: "digits_value 0 (str_nat n) = n"
proof (induction n rule: str_nat.induct)
  case (1 n)
  show ?case
  proof (cases "n < 10")
    case True
    then show ?thesis
      by (subst str_nat.simps) (simp add: digits_value_def digit_val_digit_char)
  next
    case False
    with 1 have "digits_value 0 (str_nat (n div 10)) = n div 10" by simp
    with False show ?thesis
      by (subst str_nat.simps) (simp add: digits_value_def digit_val_digit_char)
  qed
qed

lemma digits_value_zeros: "digits_value 0 (replicate k CHR ''0'' @ ds) = digits_value 0 ds"
  by (induction k) (auto simp: digits_value_def digit_val_def)

lemma parse_nat_all_digits:
  "ds \<noteq> [] \<Longrightarrow> list_all is_digit ds \<Longrightarrow> parse_nat ds = Some (digits_value 0 ds)"
  by (cases ds) (auto simp: parse_nat_def parse_digits_all_digits digits_value_def)

lemma py_strip_id:
  assumes "s \<noteq> []" "\<not> isspace (hd s)" "\<not> isspace (last s)"
  shows "py_strip s = s"
proof -
  have 1: "dropWhile isspace s = s" using assms by (cases s) auto
  have "rev s \<noteq> []" "\<not> isspace (hd (rev s))" using assms by (auto simp: hd_rev)
  then have 2: "dropWhile isspace (rev s) = rev s" by (cases "rev s") auto
  show ?thesis by (simp add: py_strip_def 1 2)
qed

lemma py_strip_digits: "ds \<noteq> [] \<Longrightarrow> list_all is_digit ds \<Longrightarrow> py_strip ds = ds"
  by (rule py_strip_id) (auto simp: list_all_iff is_digit_not_space)

lemma py_int_digits:
  assumes "ds \<noteq> []" "list_all is_digit ds"
  shows "py_int ds = Inr (int (digits_value 0 ds))"
proof -
  obtain c cs where ds: "ds = c # cs" using assms by (cases ds) auto
  with assms have "is_digit c" by simp
  then have "c \<noteq> CHR ''-''" "c \<noteq> CHR ''+''" using is_digit_cases by auto
  then show ?thesis
    using assms parse_nat_all_digits [OF assms]
    by (simp add: py_int_def py_strip_digits ds)
qed

lemma zeros_digits: "list_all is_digit (replicate k CHR ''0'')"
  by (induction k) (auto simp: is_digit_def)

lemma format_02_nonneg:
  "0 \<le> x \<Longrightarrow> format_02 x \<noteq> [] \<and> list_all is_digit (format_02 x) \<and>
     digits_value 0 (format_02 x) = nat x"
  by (simp add: format_02_def str_nat_not_Nil str_nat_digits digits_value_zeros
      digits_value_str_nat zeros_digits)

lemma py_int_format_02: "0 \<le> x \<Longrightarrow> py_int (format_02 x) = Inr x"
  using format_02_nonneg [of x] by (simp add: py_int_digits)

lemma py_split_char_none: "c \<notin> set a \<Longrightarrow> py_split [c] a = [a]"
  by (induction a) auto

lemma py_split_char_first:
  "c \<notin> set a \<Longrightarrow> py_split [c] (a @ c # rest) = a # py_split [c] rest"
  by (induction a) auto

lemma py_split_three:
  assumes "c \<notin> set h" "c \<notin> set m" "c \<notin> set s"
  shows "py_split [c] (h @ [c] @ m @ [c] @ s) = [h, m, s]"
  using assms by (simp add: py_split_char_first py_split_char_none)

section \<open>Durations\<close>

text \<open>
  C1: for every non-negative integer \<open>s\<close>, parsing the formatted duration gives \<open>s\<close> back:
  \<open>formatted_time_to_seconds (seconds_to_formatted_time s) = s\<close>.
\<close>

theorem duration_round_trip:
  assumes "0 \<le> s"
  shows "formatted_time_to_seconds (seconds_to_formatted_time s) = Inr s"
proof -
  let ?h = "s div 3600" and ?m = "s mod 3600 div 60" and ?c = "s mod 60"
  have nn: "0 \<le> ?h" "0 \<le> ?m" "0 \<le> ?c" using assms by (auto simp: pos_imp_zdiv_nonneg_iff)
  have nocolon: "CHR '':'' \<notin> set (format_02 x)" if "0 \<le> x" for x
    using format_02_nonneg [OF that] is_digit_cases by (auto simp: list_all_iff)
  have split: "py_split '':'' (format_02 ?h @ '':'' @ format_02 ?m @ '':'' @ format_02 ?c)
      = [format_02 ?h, format_02 ?m, format_02 ?c]"
    by (rule py_split_three) (simp_all add: nocolon nn)
  have "s mod 3600 mod 60 = s mod 60" by (simp add: mod_mod_cancel)
  then have "?m * 60 + ?c = s mod 3600"
    using div_mult_mod_eq [of "s mod 3600" 60] by simp
  moreover have "?h * 3600 + s mod 3600 = s"
    by (rule div_mult_mod_eq)
  ultimately have arith: "?h * 3600 + ?m * 60 + ?c = s"
    by linarith
  show ?thesis
    unfolding seconds_to_formatted_time_def formatted_time_to_seconds_def Let_def split
    by (simp add: py_int_format_02 nn arith)
qed

theorem duration_round_trip_witness:
  "(0::int) \<le> 86399 \<and> formatted_time_to_seconds (seconds_to_formatted_time 86399) = Inr 86399"
  using duration_round_trip [of 86399] by simp

lemma length_str_nat_small: "n < 10 \<Longrightarrow> length (str_nat n) = 1"
  by (subst str_nat.simps) simp

lemma length_str_nat_large: "10 \<le> n \<Longrightarrow> 2 \<le> length (str_nat n)"
  using str_nat_not_Nil [of "n div 10"]
  by (subst str_nat.simps) (cases "str_nat (n div 10)"; simp)

lemma length_str_nat_two: "10 \<le> n \<Longrightarrow> n < 100 \<Longrightarrow> length (str_nat n) = 2"
  by (subst str_nat.simps) (simp add: length_str_nat_small)

lemma format_02_zero_padded: "0 \<le> x \<Longrightarrow> format_02 x = zero_padded (nat x)"
  using length_str_nat_small [of "nat x"] length_str_nat_large [of "nat x"]
  by (cases "nat x < 10") (auto simp: format_02_def zero_padded_def numeral_2_eq_2)

lemma length_zero_padded_ge: "2 \<le> length (zero_padded n)"
  using length_str_nat_small [of n] length_str_nat_large [of n]
  by (cases "n < 10") (auto simp: zero_padded_def)

lemma length_zero_padded_two: "n < 100 \<Longrightarrow> length (zero_padded n) = 2"
  using length_str_nat_small [of n] length_str_nat_two [of n]
  by (cases "n < 10") (auto simp: zero_padded_def)

text \<open>
  C7: for every non-negative integer number of seconds, \<open>seconds_to_formatted_time\<close> returns
  \<open>HH:MM:SS\<close> with hours \<open>seconds div 3600\<close>, minutes \<open>(seconds mod 3600) div 60\<close> and
  seconds \<open>seconds mod 60\<close>, each zero-padded to at least two digits; the minutes and seconds
  fields have exactly two digits, the hours field may have more. In particular 0 renders
  \<open>00:00:00\<close>, 3661 renders \<open>01:01:01\<close> and 442800 renders \<open>123:00:00\<close>.
\<close>

theorem seconds_to_formatted_time_spec:
  assumes "0 \<le> s"
  shows "seconds_to_formatted_time s =
           zero_padded (nat (s div 3600)) @ '':'' @
           zero_padded (nat (s mod 3600 div 60)) @ '':'' @
           zero_padded (nat (s mod 60))
         \<and> 2 \<le> length (zero_padded (nat (s div 3600)))
         \<and> length (zero_padded (nat (s mod 3600 div 60))) = 2
         \<and> length (zero_padded (nat (s mod 60))) = 2
         \<and> seconds_to_formatted_time 0 = ''00:00:00''
         \<and> seconds_to_formatted_time 3661 = ''01:01:01''
         \<and> seconds_to_formatted_time 442800 = ''123:00:00''"
proof -
  have nn: "0 \<le> s div 3600" "0 \<le> s mod 3600 div 60" "0 \<le> s mod 60"
    using assms by (auto simp: pos_imp_zdiv_nonneg_iff)
  have fmt: "seconds_to_formatted_time s =
           zero_padded (nat (s div 3600)) @ '':'' @
           zero_padded (nat (s mod 3600 div 60)) @ '':'' @
           zero_padded (nat (s mod 60))"
    by (simp add: seconds_to_formatted_time_def Let_def format_02_zero_padded nn)
  have "s mod 3600 < 3600" by simp
  then have "s mod 3600 div 60 < 100" by linarith
  then have m: "nat (s mod 3600 div 60) < 100" by simp
  have c: "nat (s mod 60) < 100"
    using pos_mod_bound [of 60 s] by linarith
  have e0: "seconds_to_formatted_time 0 = ''00:00:00''" by code_simp
  have e1: "seconds_to_formatted_time 3661 = ''01:01:01''" by code_simp
  have e2: "seconds_to_formatted_time 442800 = ''123:00:00''" by code_simp
  show ?thesis
    using fmt length_zero_padded_ge [of "nat (s div 3600)"]
      length_zero_padded_two [OF m] length_zero_padded_two [OF c] e0 e1 e2
    by blast
qed

theorem seconds_to_formatted_time_spec_witness:
  "(0::int) \<le> 7384 \<and> seconds_to_formatted_time 7384 = ''02:03:04''"
proof -
  have z: "zero_padded 2 = ''02''" "zero_padded 3 = ''03''" "zero_padded 4 = ''04''"
    by code_simp+
  show ?thesis
    using seconds_to_formatted_time_spec [of 7384] by (simp add: z)
qed

lemma set_strip_front: "c \<in> set s \<Longrightarrow> isspace c \<or> c \<in> set (dropWhile isspace s)"
  by (induction s) auto

lemma set_py_strip: "c \<in> set s \<Longrightarrow> isspace c \<or> c \<in> set (py_strip s)"
proof -
  let ?t = "dropWhile isspace s"
  assume "c \<in> set s"
  then have "isspace c \<or> c \<in> set (rev ?t)" using set_strip_front by fastforce
  then have "isspace c \<or> c \<in> set (dropWhile isspace (rev ?t))"
    using set_strip_front by blast
  then show ?thesis by (simp add: py_strip_def)
qed

lemma parse_digits_chars:
  "parse_digits acc cs = Some n \<Longrightarrow> c \<in> set cs \<Longrightarrow> is_digit c \<or> c = CHR ''_''"
proof (induction acc cs rule: parse_digits.induct)
  case (1 acc)
  then show ?case by simp
next
  case (2 acc x)
  then show ?case by (simp split: if_splits)
next
  case (3 acc x d ds)
  show ?case
  proof (cases "is_digit x")
    case True
    with 3 show ?thesis by auto
  next
    case False
    with 3 have x: "x = CHR ''_''" and d: "is_digit d"
      and p: "parse_digits (10 * acc + digit_val d) ds = Some n"
      by (simp_all split: if_splits)
    from "3.IH"(2) [OF False] x d p have "c \<in> set ds \<Longrightarrow> is_digit c \<or> c = CHR ''_''"
      by simp
    with 3(4) x d show ?thesis by auto
  qed
qed

lemma parse_nat_chars:
  "parse_nat cs = Some n \<Longrightarrow> c \<in> set cs \<Longrightarrow> is_digit c \<or> c = CHR ''_''"
  by (cases cs) (auto simp: parse_nat_def split: if_splits dest: parse_digits_chars)

lemma py_int_chars:
  assumes "py_int s = Inr a" and "c \<in> set (py_strip s)"
  shows "is_digit c \<or> c = CHR ''_'' \<or> c = CHR ''-'' \<or> c = CHR ''+''"
proof (cases "py_strip s")
  case Nil
  with assms show ?thesis by simp
next
  case (Cons x xs)
  consider "x = CHR ''-''" | "x \<noteq> CHR ''-''" "x = CHR ''+''"
    | "x \<noteq> CHR ''-''" "x \<noteq> CHR ''+''" by blast
  then show ?thesis
  proof cases
    case 1
    with assms(1) Cons obtain n where "parse_nat xs = Some n"
      by (auto simp: py_int_def split: option.splits)
    with assms(2) Cons 1 show ?thesis by (auto dest: parse_nat_chars)
  next
    case 2
    with assms(1) Cons obtain n where "parse_nat xs = Some n"
      by (auto simp: py_int_def split: option.splits)
    with assms(2) Cons 2 show ?thesis by (auto dest: parse_nat_chars)
  next
    case 3
    with assms(1) Cons obtain n where "parse_nat (x # xs) = Some n"
      by (auto simp: py_int_def split: option.splits)
    then have "is_digit c \<or> c = CHR ''_''"
      using assms(2) Cons by (intro parse_nat_chars [of "x # xs" n c]) simp_all
    then show ?thesis by blast
  qed
qed

lemma py_int_no_colon:
  assumes "py_int s = Inr a"
  shows "CHR '':'' \<notin> set s"
proof
  assume "CHR '':'' \<in> set s"
  then have "CHR '':'' \<in> set (py_strip s)"
    using set_py_strip [of "CHR '':''" s] by (simp add: isspace_def)
  from py_int_chars [OF assms this] show False by (simp add: is_digit_def)
qed

text \<open>
  C9: \<open>formatted_time_to_seconds\<close> validates no range. Every string of three integer
  literals separated by colons is accepted and mapped to
  \<open>hours * 3600 + minutes * 60 + seconds\<close>, also with minutes or seconds of 60 and more and
  with negative fields. So the reverse round trip fails on accepted inputs: \<open>00:99:00\<close>
  parses to 5940, which formats as \<open>01:39:00\<close>.
\<close>

theorem formatted_time_to_seconds_unchecked:
  assumes "py_int h = Inr a" and "py_int m = Inr b" and "py_int s = Inr c"
  shows "formatted_time_to_seconds (h @ '':'' @ m @ '':'' @ s) = Inr (a * 3600 + b * 60 + c)
         \<and> formatted_time_to_seconds ''00:99:00'' = Inr 5940
         \<and> seconds_to_formatted_time 5940 = ''01:39:00''
         \<and> formatted_time_to_seconds ''00:-1:75'' = Inr 15"
proof -
  have "py_split '':'' (h @ '':'' @ m @ '':'' @ s) = [h, m, s]"
    using assms by (intro py_split_three py_int_no_colon)
  then have "formatted_time_to_seconds (h @ '':'' @ m @ '':'' @ s) = Inr (a * 3600 + b * 60 + c)"
    by (simp add: formatted_time_to_seconds_def assms)
  moreover have "formatted_time_to_seconds ''00:99:00'' = Inr 5940" by code_simp
  moreover have "seconds_to_formatted_time 5940 = ''01:39:00''" by code_simp
  moreover have "formatted_time_to_seconds ''00:-1:75'' = Inr 15" by code_simp
  ultimately show ?thesis by blast
qed

theorem formatted_time_to_seconds_unchecked_witness:
  "py_int ''1'' = Inr 1 \<and> py_int ''-70'' = Inr (- 70) \<and> py_int ''+61'' = Inr 61
   \<and> formatted_time_to_seconds ''1:-70:+61'' = Inr (- 539)"
proof -
  have h: "py_int ''1'' = Inr 1" by code_simp
  have m: "py_int ''-70'' = Inr (- 70)" by code_simp
  have s: "py_int ''+61'' = Inr 61" by code_simp
  show ?thesis
    using formatted_time_to_seconds_unchecked [OF h m s] h m s by simp
qed

section \<open>Unique file names\<close>

lemma str_nat_inj: "str_nat m = str_nat n \<Longrightarrow> m = n"
  by (metis digits_value_str_nat)

lemma numbered_path_inj: "numbered_path b e m = numbered_path b e n \<Longrightarrow> m = n"
  by (simp add: numbered_path_def str_nat_inj)

lemma unique_loop_least:
  assumes "exists p" and "c \<le> n"
    and "\<forall>k. c \<le> k \<and> k < n \<longrightarrow> exists (numbered_path b e k)"
    and "\<not> exists (numbered_path b e n)"
  shows "unique_loop exists b e p c = Some (numbered_path b e n)"
  using assms
proof (induction "n - c" arbitrary: p c)
  case 0
  then have "c = n" by simp
  with 0 show ?case
    by (subst unique_loop.simps, simp, subst unique_loop.simps, simp)
next
  case (Suc d)
  then have lt: "c < n" by simp
  with Suc.prems have ex: "exists (numbered_path b e c)" by simp
  have "unique_loop exists b e (numbered_path b e c) (c + 1) = Some (numbered_path b e n)"
    using Suc lt ex by (intro Suc.hyps(1)) auto
  with Suc.prems(1) show ?case
    by (subst unique_loop.simps) simp
qed

lemma get_unique_absent:
  "\<not> exists p \<Longrightarrow> get_unique_file_name splitext exists p = Some p"
  by (cases "splitext p") (simp add: get_unique_file_name_def, subst unique_loop.simps, simp)

lemma get_unique_least:
  assumes "exists p" and "splitext p = (b, e)" and "1 \<le> n"
    and "\<forall>k. 1 \<le> k \<and> k < n \<longrightarrow> exists (numbered_path b e k)"
    and "\<not> exists (numbered_path b e n)"
  shows "get_unique_file_name splitext exists p = Some (numbered_path b e n)"
  using unique_loop_least [OF assms(1,3,4,5)] assms(2)
  by (simp add: get_unique_file_name_def)

lemma free_counter:
  assumes "finite {q. exists q}"
  shows "\<exists>n\<ge>1. \<not> exists (numbered_path b e n)"
proof (rule ccontr)
  assume "\<not> ?thesis"
  then have "numbered_path b e ` {1..} \<subseteq> {q. exists q}" by auto
  then have "finite (numbered_path b e ` {1..})" using assms by (rule finite_subset)
  moreover have "inj_on (numbered_path b e) {1..}"
    by (rule inj_onI) (rule numbered_path_inj)
  ultimately have "finite {1::nat ..}" by (rule finite_imageD)
  then show False by (simp add: infinite_Ici)
qed

lemma rfind_last:
  assumes "c \<notin> set e"
  shows "rfind c (b @ c # e) = Some (length b)"
proof -
  have "takeWhile (\<lambda>x. x \<noteq> c) (rev e) = rev e"
    using assms by (auto simp: takeWhile_eq_all_conv)
  then have "length (takeWhile (\<lambda>x. x \<noteq> c) (rev e)) = length e"
    by (metis length_rev)
  then show ?thesis by (simp add: rfind_def takeWhile_tail)
qed

lemma posix_splitext_last_dot:
  assumes "CHR ''/'' \<notin> set b" "CHR ''/'' \<notin> set e" "CHR ''.'' \<notin> set e" "\<exists>c\<in>set b. c \<noteq> CHR ''.''"
  shows "posix_splitext (b @ CHR ''.'' # e) = (b, CHR ''.'' # e)"
proof -
  have "rfind CHR ''/'' (b @ CHR ''.'' # e) = None" using assms by (simp add: rfind_def)
  then show ?thesis using assms by (simp add: posix_splitext_def rfind_last)
qed

lemma posix_splitext_example: "posix_splitext ''a.mp3'' = (''a'', ''.mp3'')"
  by code_simp

lemma numbered_path_examples:
  "numbered_path ''a'' ''.mp3'' (Suc 0) = ''a (1).mp3''"
  "numbered_path ''a'' ''.mp3'' 2 = ''a (2).mp3''"
  by code_simp+

lemma below_two: "Suc 0 \<le> k \<and> k < 2 \<longleftrightarrow> k = Suc 0"
  by arith

text \<open>
  C8: for every candidate path and every existence predicate: a candidate that does not
  exist is returned unchanged; otherwise the result is \<open><base> (<n>)<extension>\<close>, base and
  extension as \<open>splitext\<close> gives them, for the smallest counter \<open>n \<ge> 1\<close> whose path does not
  exist. In particular, when \<open>a.mp3\<close> and \<open>a (1).mp3\<close> exist and \<open>a (2).mp3\<close> does not, the
  result for \<open>a.mp3\<close> is \<open>a (2).mp3\<close>.
\<close>

theorem get_unique_file_name_first_free:
  "(\<not> exists p \<longrightarrow> get_unique_file_name splitext exists p = Some p)
   \<and> (exists p \<and> splitext p = (base_name, extension) \<and> 1 \<le> n
        \<and> (\<forall>k. 1 \<le> k \<and> k < n \<longrightarrow> exists (numbered_path base_name extension k))
        \<and> \<not> exists (numbered_path base_name extension n)
      \<longrightarrow> get_unique_file_name splitext exists p = Some (numbered_path base_name extension n))
   \<and> (exists ''a.mp3'' \<and> exists ''a (1).mp3'' \<and> \<not> exists ''a (2).mp3''
      \<longrightarrow> get_unique_file_name posix_splitext exists ''a.mp3'' = Some ''a (2).mp3'')"
proof (intro conjI impI)
  assume "\<not> exists p"
  then show "get_unique_file_name splitext exists p = Some p"
    by (rule get_unique_absent)
next
  assume "exists p \<and> splitext p = (base_name, extension) \<and> 1 \<le> n
        \<and> (\<forall>k. 1 \<le> k \<and> k < n \<longrightarrow> exists (numbered_path base_name extension k))
        \<and> \<not> exists (numbered_path base_name extension n)"
  then show "get_unique_file_name splitext exists p = Some (numbered_path base_name extension n)"
    by (intro get_unique_least [where exists = exists and splitext = splitext]) simp_all
next
  assume a: "exists ''a.mp3'' \<and> exists ''a (1).mp3'' \<and> \<not> exists ''a (2).mp3''"
  have "get_unique_file_name posix_splitext exists ''a.mp3''
          = Some (numbered_path ''a'' ''.mp3'' 2)"
  proof (rule get_unique_least [where exists = exists and splitext = posix_splitext])
    show "exists ''a.mp3''" using a by simp
    show "posix_splitext ''a.mp3'' = (''a'', ''.mp3'')" by (rule posix_splitext_example)
    show "1 \<le> (2::nat)" by simp
    show "\<forall>k. 1 \<le> k \<and> k < 2 \<longrightarrow> exists (numbered_path ''a'' ''.mp3'' k)"
      using a by (simp add: below_two numbered_path_examples)
    show "\<not> exists (numbered_path ''a'' ''.mp3'' 2)"
      using a by (simp add: numbered_path_examples)
  qed
  then show "get_unique_file_name posix_splitext exists ''a.mp3'' = Some ''a (2).mp3''"
    by (simp add: numbered_path_examples)
qed

theorem get_unique_file_name_first_free_witness:
  "get_unique_file_name posix_splitext (\<lambda>q. q \<in> set [''a.mp3'', ''a (1).mp3'']) ''b.mp3''
     = Some ''b.mp3''
   \<and> get_unique_file_name posix_splitext (\<lambda>q. q \<in> set [''a.mp3'', ''a (1).mp3'']) ''a.mp3''
     = Some ''a (2).mp3''
   \<and> get_unique_file_name posix_splitext (\<lambda>q. q \<in> set [''a.mp3'']) ''a.mp3''
     = Some ''a (1).mp3''"
proof -
  let ?fs = "\<lambda>q. q \<in> set [''a.mp3'', ''a (1).mp3'']"
  let ?one = "\<lambda>q. q \<in> set [''a.mp3'']"
  have 1: "get_unique_file_name posix_splitext ?fs ''b.mp3'' = Some ''b.mp3''"
    using get_unique_file_name_first_free
      [where exists = ?fs and p = "''b.mp3''" and splitext = posix_splitext]
    by simp
  have 2: "get_unique_file_name posix_splitext ?fs ''a.mp3'' = Some ''a (2).mp3''"
    using get_unique_file_name_first_free
      [where exists = ?fs and p = "''a.mp3''" and splitext = posix_splitext]
    by simp
  have 3: "get_unique_file_name posix_splitext ?one ''a.mp3'' = Some ''a (1).mp3''"
    using get_unique_file_name_first_free
      [where exists = ?one and p = "''a.mp3''" and splitext = posix_splitext
         and base_name = "''a''" and extension = "''.mp3''" and n = 1]
    by (simp add: posix_splitext_example numbered_path_examples)
  from 1 2 3 show ?thesis by blast
qed

text \<open>
  C10: when only finitely many paths exist, \<open>get_unique_file_name\<close> returns for every
  candidate, and the path it returns does not exist.
\<close>

theorem get_unique_file_name_terminates:
  assumes "finite {q. exists q}"
  shows "\<exists>r. get_unique_file_name splitext exists p = Some r \<and> \<not> exists r"
proof (cases "exists p")
  case False
  then show ?thesis by (simp add: get_unique_absent)
next
  case True
  obtain b e where sp: "splitext p = (b, e)" by (cases "splitext p")
  define P where "P n \<longleftrightarrow> 1 \<le> n \<and> \<not> exists (numbered_path b e n)" for n
  from free_counter [OF assms] have "\<exists>n. P n" unfolding P_def by blast
  then obtain n where n: "P n" and least: "\<forall>m<n. \<not> P m"
    unfolding exists_least_iff [of P] by blast
  have below: "\<forall>k. 1 \<le> k \<and> k < n \<longrightarrow> exists (numbered_path b e k)"
    using least unfolding P_def by blast
  have "1 \<le> n" and free: "\<not> exists (numbered_path b e n)"
    using n unfolding P_def by simp_all
  have "get_unique_file_name splitext exists p = Some (numbered_path b e n)"
    using True sp \<open>1 \<le> n\<close> below free
    by (rule get_unique_least [where exists = exists and splitext = splitext])
  with free show ?thesis by blast
qed


theorem get_unique_file_name_terminates_witness:
  "finite {q. q \<in> set [''a.mp3'', ''a (1).mp3'']}
   \<and> (\<exists>r. get_unique_file_name posix_splitext (\<lambda>q. q \<in> set [''a.mp3'', ''a (1).mp3''])
              ''a.mp3'' = Some r
          \<and> r \<notin> set [''a.mp3'', ''a (1).mp3''])"
proof -
  have f: "finite {q. q \<in> set [''a.mp3'', ''a (1).mp3'']}" by simp
  show ?thesis
    using get_unique_file_name_terminates
      [where exists = "\<lambda>q. q \<in> set [''a.mp3'', ''a (1).mp3'']", OF f,
        of posix_splitext "''a.mp3''"] f
    by blast
qed

section \<open>File sizes\<close>
















section \<open>Parsing sizes\<close>

lemma py_split_ws_Nil: "py_split_ws [] = []"
  by (subst py_split_ws.simps) simp

lemma py_split_ws_skip: "isspace d \<Longrightarrow> py_split_ws (d # rest) = py_split_ws rest"
  by (subst py_split_ws.simps, subst (2) py_split_ws.simps) simp

lemma word_front:
  assumes "w \<noteq> []" and "\<forall>c\<in>set w. \<not> isspace c"
  shows "dropWhile isspace (w @ r) = w @ r"
  using assms by (cases w) simp_all

lemma py_split_ws_word:
  assumes "w \<noteq> []" and "\<forall>c\<in>set w. \<not> isspace c" and "isspace d"
  shows "py_split_ws (w @ d # rest) = w # py_split_ws rest"
proof -
  have 1: "dropWhile isspace (w @ d # rest) = w @ d # rest"
    using assms(1,2) by (rule word_front)
  have 2: "takeWhile (\<lambda>c. \<not> isspace c) (w @ d # rest) = w"
    using assms(2,3) by (simp add: takeWhile_tail)
  have 3: "dropWhile (\<lambda>c. \<not> isspace c) (w @ d # rest) = d # rest"
    using assms(2,3) by (simp add: dropWhile_append3)
  have "py_split_ws (w @ d # rest) = w # py_split_ws (d # rest)"
    using assms(1) by (subst py_split_ws.simps) (simp add: 1 2 3 Let_def)
  then show ?thesis by (simp add: py_split_ws_skip assms(3))
qed

lemma py_split_ws_last:
  assumes "w \<noteq> []" and "\<forall>c\<in>set w. \<not> isspace c"
  shows "py_split_ws w = [w]"
proof -
  have 1: "dropWhile isspace w = w" using word_front [OF assms, of "[]"] by simp
  have 2: "takeWhile (\<lambda>c. \<not> isspace c) w = w" using assms(2) by simp
  have 3: "dropWhile (\<lambda>c. \<not> isspace c) w = []" using assms(2) by simp
  show ?thesis
    using assms(1) by (subst py_split_ws.simps) (simp add: 1 2 3 Let_def py_split_ws_Nil)
qed

lemma units_cases: "e < length units \<Longrightarrow> e = 0 \<or> e = 1 \<or> e = 2 \<or> e = 3 \<or> e = 4"
  by (simp add: units_def) arith

lemma units_words:
  assumes "e < length units"
  shows "units ! e \<noteq> [] \<and> (\<forall>c\<in>set (units ! e). \<not> isspace c) \<and> index_of units (units ! e) = Some e"
proof -
  have "units ! 0 \<noteq> [] \<and> (\<forall>c\<in>set (units ! 0). \<not> isspace c) \<and> index_of units (units ! 0) = Some 0"
    by (simp add: units_def isspace_def)
  moreover have "units ! 1 \<noteq> [] \<and> (\<forall>c\<in>set (units ! 1). \<not> isspace c) \<and> index_of units (units ! 1) = Some 1"
    by (simp add: units_def isspace_def)
  moreover have "units ! 2 \<noteq> [] \<and> (\<forall>c\<in>set (units ! 2). \<not> isspace c) \<and> index_of units (units ! 2) = Some 2"
    by (simp add: units_def isspace_def)
  moreover have "units ! 3 \<noteq> [] \<and> (\<forall>c\<in>set (units ! 3). \<not> isspace c) \<and> index_of units (units ! 3) = Some 3"
    by (simp add: units_def isspace_def)
  moreover have "units ! 4 \<noteq> [] \<and> (\<forall>c\<in>set (units ! 4). \<not> isspace c) \<and> index_of units (units ! 4) = Some 4"
    by (simp add: units_def isspace_def)
  ultimately show ?thesis using units_cases [OF assms] by blast
qed

lemma trunc_towards_zero:
  "(0 \<le> x \<longrightarrow> of_int (trunc x) \<le> x \<and> x < of_int (trunc x) + 1)
   \<and> (x < 0 \<longrightarrow> x \<le> of_int (trunc x) \<and> of_int (trunc x) < x + 1)"
  unfolding trunc_def by (simp; linarith)

text \<open>
  C5, as the code has it: for every well-formed size string \<open><magnitude> <unit>\<close> whose
  unit is the entry of index \<open>e\<close> in \<open>[B, KB, MB, GB, TB]\<close> and whose magnitude has the value
  \<open>m\<close>, \<open>formatted_size_to_bytes\<close> returns \<open>m * 1024 ^ e\<close> with its fractional part dropped,
  that is truncated towards zero. It does not round to the nearest integer.
\<close>

theorem formatted_size_to_bytes_truncates:
  assumes "ms \<noteq> []" and "\<forall>c\<in>set ms. \<not> isspace c" and "py_float ms = Some m"
    and "e < length units"
  shows "formatted_size_to_bytes py_float (ms @ '' '' @ units ! e) = Inr (trunc (m * 1024 ^ e))
    \<and> (0 \<le> m \<longrightarrow> of_int (trunc (m * 1024 ^ e)) \<le> m * 1024 ^ e
                \<and> m * 1024 ^ e < of_int (trunc (m * 1024 ^ e)) + 1)
    \<and> (m < 0 \<longrightarrow> m * 1024 ^ e \<le> of_int (trunc (m * 1024 ^ e))
                \<and> of_int (trunc (m * 1024 ^ e)) < m * 1024 ^ e + 1)"
proof -
  note u = units_words [OF assms(4)]
  have "py_split_ws (ms @ CHR '' '' # units ! e) = ms # py_split_ws (units ! e)"
    using assms(1,2) by (rule py_split_ws_word) (simp add: isspace_def)
  also have "py_split_ws (units ! e) = [units ! e]"
    using u by (intro py_split_ws_last) simp_all
  finally have "py_split_ws (ms @ '' '' @ units ! e) = [ms, units ! e]" by simp
  then have r: "formatted_size_to_bytes py_float (ms @ '' '' @ units ! e)
      = Inr (trunc (m * 1024 ^ e))"
    using u assms(3) by (simp add: formatted_size_to_bytes_def)
  have pos: "0 < (1024::rat) ^ e" by simp
  have s1: "0 \<le> m \<longleftrightarrow> 0 \<le> m * 1024 ^ e"
    using mult_le_cancel_right_pos [OF pos, of 0 m] by simp
  have s2: "m < 0 \<longleftrightarrow> m * 1024 ^ e < 0"
    using mult_less_cancel_right_pos [OF pos, of m 0] by simp
  show ?thesis
    using r trunc_towards_zero [of "m * 1024 ^ e"] unfolding s1 s2 by blast
qed

theorem formatted_size_to_bytes_truncates_witness:
  "''2.5'' \<noteq> [] \<and> list_all (\<lambda>c. \<not> isspace c) ''2.5'' \<and> decimal_literal ''2.5'' = Some (5 / 2)
   \<and> 2 < length units
   \<and> formatted_size_to_bytes decimal_literal ''2.5 MB'' = Inr 2621440"
proof -
  have a: "''2.5'' \<noteq> []" by simp
  have b: "\<forall>c\<in>set ''2.5''. \<not> isspace c" by (simp add: isspace_def)
  have c: "decimal_literal ''2.5'' = Some (5 / 2)" by code_simp
  have d: "2 < length units" by (simp add: units_def)
  have t: "trunc (5 / 2 * 1024 ^ 2) = 2621440" by code_simp
  have u: "units ! 2 = ''MB''" by (simp add: units_def)
  show ?thesis
    using formatted_size_to_bytes_truncates
      [where py_float = decimal_literal and ms = "''2.5''" and m = "5 / 2" and e = 2, OF a b c d]
      a b c d
    by (simp add: t u list_all_iff)
qed

text \<open>
  Rounding to the nearest integer fails on \<open>1.75 B\<close>: the magnitude is \<open>7 / 4\<close>, the unit index
  is 0, the nearest integer is 2, and the function returns 1.
\<close>

theorem formatted_size_to_bytes_round_counterexample:
  "decimal_literal ''1.75'' = Some (7 / 4) \<and> index_of units ''B'' = Some 0
   \<and> formatted_size_to_bytes decimal_literal ''1.75 B'' = Inr 1
   \<and> round (7 / 4 * 1024 ^ 0 :: rat) = 2
   \<and> formatted_size_to_bytes decimal_literal ''1.75 B'' \<noteq> Inr (round (7 / 4 * 1024 ^ 0 :: rat))"
proof -
  have a: "decimal_literal ''1.75'' = Some (7 / 4)" by code_simp
  have b: "index_of units ''B'' = Some 0" by code_simp
  have c: "formatted_size_to_bytes decimal_literal ''1.75 B'' = Inr 1" by code_simp
  have d: "round (7 / 4 * 1024 ^ 0 :: rat) = 2" by code_simp
  have e: "formatted_size_to_bytes decimal_literal ''1.75 B'' \<noteq> Inr (round (7 / 4 * 1024 ^ 0 :: rat))"
    unfolding c d by simp
  show ?thesis
    by (rule conjI, rule a, rule conjI, rule b, rule conjI, rule c, rule conjI, rule d, rule e)
qed

section \<open>Song blocks\<close>

lemma before_first_absent: "sep \<noteq> [] \<Longrightarrow> \<not> sublist sep s \<Longrightarrow> before_first sep s = s"
  by (induction s) (auto simp: sublist_Cons_right)

lemma before_after_first:
  "sep \<noteq> [] \<Longrightarrow> sublist sep s \<Longrightarrow> s = before_first sep s @ sep @ after_first sep s"
proof (induction s)
  case Nil
  then show ?case by simp
next
  case (Cons c cs)
  show ?case
  proof (cases "prefix sep (c # cs)")
    case True
    then obtain r where r: "c # cs = sep @ r" by (auto simp: prefix_def)
    then have d: "sep @ drop (length sep) (c # cs) = c # cs"
      by (metis append_eq_conv_conj)
    have b: "before_first sep (c # cs) = []"
      and a: "after_first sep (c # cs) = drop (length sep) (c # cs)"
      using True by simp_all
    show ?thesis unfolding b a using d by simp
  next
    case False
    with Cons.prems have "sublist sep cs" by (simp add: sublist_Cons_right)
    with Cons.IH Cons.prems(1) have "cs = before_first sep cs @ sep @ after_first sep cs" by simp
    with False show ?thesis by simp
  qed
qed

lemma before_first_least:
  "s = a @ sep @ b \<Longrightarrow> length (before_first sep s) \<le> length a"
proof (induction s arbitrary: a)
  case Nil
  then show ?case by simp
next
  case (Cons c cs)
  show ?case
  proof (cases "prefix sep (c # cs)")
    case True
    then show ?thesis by simp
  next
    case False
    with Cons.prems obtain a' where a: "a = c # a'" and "cs = a' @ sep @ b"
      by (cases a) auto
    with Cons.IH have "length (before_first sep cs) \<le> length a'" by simp
    with False a show ?thesis by simp
  qed
qed

lemma py_split_unfold:
  "sep \<noteq> [] \<Longrightarrow> py_split sep s =
     (if sublist sep s then before_first sep s # py_split sep (after_first sep s) else [s])"
proof (induction s)
  case Nil
  then show ?case by simp
next
  case (Cons c cs)
  show ?case
  proof (cases "prefix sep (c # cs)")
    case True
    with Cons.prems show ?thesis by simp
  next
    case False
    then have sub: "sublist sep (c # cs) = sublist sep cs" by (simp add: sublist_Cons_right)
    show ?thesis
      using False Cons.IH [OF Cons.prems] by (simp add: sub)
  qed
qed

lemma py_split_not_Nil: "py_split sep s \<noteq> []"
  by (induction sep s rule: py_split.induct) (auto split: list.splits)

lemma hd_py_split: "sep \<noteq> [] \<Longrightarrow> hd (py_split sep s) = before_first sep s"
  by (subst py_split_unfold) (auto simp: before_first_absent)

lemma py_split_absent: "sep \<noteq> [] \<Longrightarrow> \<not> sublist sep s \<Longrightarrow> py_split sep s = [s]"
  by (subst py_split_unfold) auto

lemma py_split_two:
  assumes "sep \<noteq> []" and "sublist sep s"
  shows "\<exists>rest. py_split sep s = before_first sep s # before_first sep (after_first sep s) # rest"
proof -
  have "py_split sep s = before_first sep s # py_split sep (after_first sep s)"
    using assms by (subst py_split_unfold) auto
  moreover obtain x xs where "py_split sep (after_first sep s) = x # xs"
    using py_split_not_Nil [of sep "after_first sep s"] by (cases "py_split sep (after_first sep s)") auto
  moreover from this have "x = before_first sep (after_first sep s)"
    using hd_py_split [OF assms(1), of "after_first sep s"] by simp
  ultimately show ?thesis by simp
qed

lemma parse_lines:
  "\<exists>rest. py_split [CHR 0x0A] (py_strip text) = header_line text # rest"
proof -
  obtain x xs where l: "py_split [CHR 0x0A] (py_strip text) = x # xs"
    using py_split_not_Nil by (cases "py_split [CHR 0x0A] (py_strip text)") auto
  then have "x = header_line text"
    using hd_py_split [of "[CHR 0x0A]" "py_strip text"] by (simp add: header_line_def)
  with l show ?thesis by simp
qed

lemma parse_success:
  assumes "sublist '' by '' (header_line text)"
    and "sublist '' | '' (artist_part (header_line text))"
  shows "parse_text_block_into_song text =
    Inr \<lparr>song_name = py_strip (before_first '' by '' (header_line text)),
         artist_name = py_strip (before_first '' | '' (artist_part (header_line text))),
         artist_link = py_strip (before_first '' | ''
                          (after_first '' | '' (artist_part (header_line text)))),
         licenses = map py_strip (take 3 (drop 1 (py_split [CHR 0x0A] (py_strip text))))\<rparr>"
proof -
  obtain rest where l: "py_split [CHR 0x0A] (py_strip text) = header_line text # rest"
    using parse_lines by blast
  obtain r1 where s: "py_split '' by '' (header_line text) =
      before_first '' by '' (header_line text) # artist_part (header_line text) # r1"
    using py_split_two [OF _ assms(1)] by (auto simp: artist_part_def)
  obtain r2 where a: "py_split '' | '' (artist_part (header_line text)) =
      before_first '' | '' (artist_part (header_line text)) #
      before_first '' | '' (after_first '' | '' (artist_part (header_line text))) # r2"
    using py_split_two [OF _ assms(2)] by auto
  show ?thesis
    by (simp add: parse_text_block_into_song_def Let_def l s a)
qed

lemma parse_no_by:
  assumes "\<not> sublist '' by '' (header_line text)"
  shows "parse_text_block_into_song text = Inl IndexError"
proof -
  obtain rest where l: "py_split [CHR 0x0A] (py_strip text) = header_line text # rest"
    using parse_lines by blast
  have s: "py_split '' by '' (header_line text) = [header_line text]"
    using assms by (intro py_split_absent) simp_all
  show ?thesis
    by (simp add: parse_text_block_into_song_def Let_def l s)
qed

lemma parse_no_bar:
  assumes "sublist '' by '' (header_line text)"
    and "\<not> sublist '' | '' (artist_part (header_line text))"
  shows "parse_text_block_into_song text = Inl IndexError"
proof -
  obtain rest where l: "py_split [CHR 0x0A] (py_strip text) = header_line text # rest"
    using parse_lines by blast
  obtain r1 where s: "py_split '' by '' (header_line text) =
      before_first '' by '' (header_line text) # artist_part (header_line text) # r1"
    using py_split_two [OF _ assms(1)] by (auto simp: artist_part_def)
  have a: "py_split '' | '' (artist_part (header_line text)) = [artist_part (header_line text)]"
    using assms(2) by (intro py_split_absent) simp_all
  show ?thesis
    by (simp add: parse_text_block_into_song_def Let_def l s a)
qed


lemma parse_cases:
  "parse_text_block_into_song text = Inl IndexError \<and>
     (\<not> sublist '' by '' (header_line text) \<or> \<not> sublist '' | '' (artist_part (header_line text)))
   \<or> sublist '' by '' (header_line text) \<and> sublist '' | '' (artist_part (header_line text)) \<and>
     parse_text_block_into_song text =
       Inr \<lparr>song_name = py_strip (before_first '' by '' (header_line text)),
            artist_name = py_strip (before_first '' | '' (artist_part (header_line text))),
            artist_link = py_strip (before_first '' | ''
                             (after_first '' | '' (artist_part (header_line text)))),
            licenses = map py_strip (take 3 (drop 1 (py_split [CHR 0x0A] (py_strip text))))\<rparr>"
proof (cases "sublist '' by '' (header_line text)")
  case False
  then show ?thesis using parse_no_by by blast
next
  case hb: True
  show ?thesis
  proof (cases "sublist '' | '' (artist_part (header_line text))")
    case False
    with hb show ?thesis using parse_no_bar by blast
  next
    case True
    with hb show ?thesis using parse_success by blast
  qed
qed

text \<open>
  C2, as the code has it: the header is split at every \<open>" by "\<close>, and only the first two
  fields are used. When the header contains \<open>" by "\<close> and its artist part (the text between
  the first \<open>" by "\<close> and the next one, or the end of the header) contains \<open>" | "\<close>, the
  block is parsed: \<open>song_name\<close> is the text before the first \<open>" by "\<close>, \<open>artist_name\<close> the text
  of the artist part before its first \<open>" | "\<close>, and \<open>artist_link\<close> the text of the artist part
  between its first \<open>" | "\<close> and its next one (or its end), each trimmed. With no second
  \<open>" by "\<close> the artist part is everything after the first \<open>" by "\<close>, and with no second
  \<open>" | "\<close> the link is everything after the first \<open>" | "\<close>.
\<close>

theorem parse_header_fields:
  assumes "sublist '' by '' (header_line text)"
    and "sublist '' | '' (artist_part (header_line text))"
  shows "\<exists>r. parse_text_block_into_song text = Inr r
    \<and> song_name r = py_strip (before_first '' by '' (header_line text))
    \<and> artist_name r = py_strip (before_first '' | '' (artist_part (header_line text)))
    \<and> artist_link r = py_strip (before_first '' | ''
                          (after_first '' | '' (artist_part (header_line text))))
    \<and> (\<not> sublist '' by '' (after_first '' by '' (header_line text))
          \<longrightarrow> artist_part (header_line text) = after_first '' by '' (header_line text))
    \<and> (\<not> sublist '' | '' (after_first '' | '' (artist_part (header_line text)))
          \<longrightarrow> artist_link r = py_strip (after_first '' | '' (artist_part (header_line text))))"
proof -
  let ?r = "\<lparr>song_name = py_strip (before_first '' by '' (header_line text)),
         artist_name = py_strip (before_first '' | '' (artist_part (header_line text))),
         artist_link = py_strip (before_first '' | ''
                          (after_first '' | '' (artist_part (header_line text)))),
         licenses = map py_strip (take 3 (drop 1 (py_split [CHR 0x0A] (py_strip text))))\<rparr>"
  have p: "parse_text_block_into_song text = Inr ?r"
    using assms by (rule parse_success)
  have sel: "song_name ?r = py_strip (before_first '' by '' (header_line text))"
    "artist_name ?r = py_strip (before_first '' | '' (artist_part (header_line text)))"
    "artist_link ?r = py_strip (before_first '' | ''
                          (after_first '' | '' (artist_part (header_line text))))"
    by (simp_all only: song.simps)
  have one_by: "\<not> sublist '' by '' (after_first '' by '' (header_line text))
          \<longrightarrow> artist_part (header_line text) = after_first '' by '' (header_line text)"
  proof
    assume n: "\<not> sublist '' by '' (after_first '' by '' (header_line text))"
    have "before_first '' by '' (after_first '' by '' (header_line text))
        = after_first '' by '' (header_line text)"
      by (rule before_first_absent [OF _ n]) simp
    then show "artist_part (header_line text) = after_first '' by '' (header_line text)"
      by (simp only: artist_part_def)
  qed
  have one_bar: "\<not> sublist '' | '' (after_first '' | '' (artist_part (header_line text)))
          \<longrightarrow> artist_link ?r = py_strip (after_first '' | '' (artist_part (header_line text)))"
  proof
    assume n: "\<not> sublist '' | '' (after_first '' | '' (artist_part (header_line text)))"
    have "before_first '' | '' (after_first '' | '' (artist_part (header_line text)))
        = after_first '' | '' (artist_part (header_line text))"
      by (rule before_first_absent [OF _ n]) simp
    then show "artist_link ?r = py_strip (after_first '' | '' (artist_part (header_line text)))"
      by (simp only: song.simps)
  qed
  have c: "parse_text_block_into_song text = Inr ?r
    \<and> song_name ?r = py_strip (before_first '' by '' (header_line text))
    \<and> artist_name ?r = py_strip (before_first '' | '' (artist_part (header_line text)))
    \<and> artist_link ?r = py_strip (before_first '' | ''
                          (after_first '' | '' (artist_part (header_line text))))
    \<and> (\<not> sublist '' by '' (after_first '' by '' (header_line text))
          \<longrightarrow> artist_part (header_line text) = after_first '' by '' (header_line text))
    \<and> (\<not> sublist '' | '' (after_first '' | '' (artist_part (header_line text)))
          \<longrightarrow> artist_link ?r = py_strip (after_first '' | '' (artist_part (header_line text))))"
    by (rule conjI, rule p, rule conjI, rule sel(1), rule conjI, rule sel(2),
        rule conjI, rule sel(3), rule conjI, rule one_by, rule one_bar)
  show ?thesis by (rule exI, rule c)
qed


theorem parse_header_fields_witness:
  "sublist '' by '' (header_line ''Ocean Waves by Jane Doe | http://example.com/jane\<newline>CC-BY 4.0\<newline>CC0'')
   \<and> sublist '' | '' (artist_part (header_line
         ''Ocean Waves by Jane Doe | http://example.com/jane\<newline>CC-BY 4.0\<newline>CC0''))
   \<and> (\<exists>r. parse_text_block_into_song
           ''Ocean Waves by Jane Doe | http://example.com/jane\<newline>CC-BY 4.0\<newline>CC0'' = Inr r
        \<and> song_name r = ''Ocean Waves'' \<and> artist_name r = ''Jane Doe''
        \<and> artist_link r = ''http://example.com/jane'')"
proof -
  let ?T = "''Ocean Waves by Jane Doe | http://example.com/jane\<newline>CC-BY 4.0\<newline>CC0''"
  have h1: "sublist '' by '' (header_line ?T)" by code_simp
  have h2: "sublist '' | '' (artist_part (header_line ?T))" by code_simp
  have v1: "py_strip (before_first '' by '' (header_line ?T)) = ''Ocean Waves''" by code_simp
  have v2: "py_strip (before_first '' | '' (artist_part (header_line ?T))) = ''Jane Doe''"
    by code_simp
  have v3: "py_strip (before_first '' | '' (after_first '' | '' (artist_part (header_line ?T))))
      = ''http://example.com/jane''" by code_simp
  obtain r where p: "parse_text_block_into_song ?T = Inr r"
    and s1: "song_name r = py_strip (before_first '' by '' (header_line ?T))"
    and s2: "artist_name r = py_strip (before_first '' | '' (artist_part (header_line ?T)))"
    and s3: "artist_link r = py_strip (before_first '' | ''
          (after_first '' | '' (artist_part (header_line ?T))))"
    using parse_header_fields [OF h1 h2] by blast
  have f1: "song_name r = ''Ocean Waves''" by (simp only: s1 v1)
  have f2: "artist_name r = ''Jane Doe''" by (simp only: s2 v2)
  have f3: "artist_link r = ''http://example.com/jane''" by (simp only: s3 v3)
  have c: "parse_text_block_into_song ?T = Inr r
        \<and> song_name r = ''Ocean Waves'' \<and> artist_name r = ''Jane Doe''
        \<and> artist_link r = ''http://example.com/jane''"
    by (rule conjI, rule p, rule conjI, rule f1, rule conjI, rule f2, rule f3)
  have e: "\<exists>r. parse_text_block_into_song ?T = Inr r
        \<and> song_name r = ''Ocean Waves'' \<and> artist_name r = ''Jane Doe''
        \<and> artist_link r = ''http://example.com/jane''"
    by (rule exI, rule c)
  show ?thesis by (rule conjI, rule h1, rule conjI, rule h2, rule e)
qed

text \<open>
  The claim as written fails on headers that repeat a separator. In \<open>A by B | C | D\<close> the
  text after the first \<open>" | "\<close> of the remainder is \<open>C | D\<close>, and the parsed link is \<open>C\<close>. The
  header \<open>Stand by Me by Ben | x\<close> contains both separators, and its remainder after the
  first \<open>" by "\<close> contains \<open>" | "\<close>, yet it is rejected.
\<close>

theorem parse_repeated_separator_counterexample:
  "sublist '' by '' ''A by B | C | D''
   \<and> sublist '' | '' (after_first '' by '' ''A by B | C | D'')
   \<and> py_strip (after_first '' | '' (after_first '' by '' ''A by B | C | D'')) = ''C | D''
   \<and> parse_text_block_into_song ''A by B | C | D'' =
        Inr \<lparr>song_name = ''A'', artist_name = ''B'', artist_link = ''C'', licenses = []\<rparr>
   \<and> sublist '' by '' ''Stand by Me by Ben | x''
   \<and> sublist '' | '' (after_first '' by '' ''Stand by Me by Ben | x'')
   \<and> parse_text_block_into_song ''Stand by Me by Ben | x'' = Inl IndexError"
proof -
  have 1: "sublist '' by '' ''A by B | C | D''" by code_simp
  have 2: "sublist '' | '' (after_first '' by '' ''A by B | C | D'')" by code_simp
  have 3: "py_strip (after_first '' | '' (after_first '' by '' ''A by B | C | D'')) = ''C | D''"
    by code_simp
  have 4: "parse_text_block_into_song ''A by B | C | D'' =
        Inr \<lparr>song_name = ''A'', artist_name = ''B'', artist_link = ''C'', licenses = []\<rparr>"
    by code_simp
  have 5: "sublist '' by '' ''Stand by Me by Ben | x''" by code_simp
  have 6: "sublist '' | '' (after_first '' by '' ''Stand by Me by Ben | x'')" by code_simp
  have 7: "parse_text_block_into_song ''Stand by Me by Ben | x'' = Inl IndexError" by code_simp
  show ?thesis
    by (rule conjI, rule 1, rule conjI, rule 2, rule conjI, rule 3, rule conjI, rule 4,
        rule conjI, rule 5, rule conjI, rule 6, rule 7)
qed



lemma strip_trailing:
  assumes "\<forall>c\<in>set ws. isspace c"
  shows "py_strip (s @ ws) = py_strip s"
proof (cases "\<forall>c\<in>set s. isspace c")
  case True
  then have 1: "dropWhile isspace s = []" by simp
  from True assms have "\<forall>c\<in>set (s @ ws). isspace c" by auto
  then have 2: "dropWhile isspace (s @ ws) = []" by (simp only: dropWhile_eq_Nil_conv)
  show ?thesis by (simp only: py_strip_def 1 2)
next
  case False
  then have "dropWhile isspace (s @ ws) = dropWhile isspace s @ ws"
    by (auto simp: dropWhile_append)
  moreover have "dropWhile isspace (rev ws @ rev (dropWhile isspace s))
      = dropWhile isspace (rev (dropWhile isspace s))"
    using assms by (intro dropWhile_append2) simp
  ultimately show ?thesis by (simp add: py_strip_def)
qed

lemma parse_trailing_space:
  assumes "\<forall>c\<in>set ws. isspace c"
  shows "parse_text_block_into_song (block @ ws) = parse_text_block_into_song block"
  by (simp only: parse_text_block_into_song_def strip_trailing [OF assms])

text \<open>
  C4, as the code has it: the block is trimmed before it is cut into lines. On every block
  that parses, \<open>licenses\<close> is the trimmed contents of lines 1 to 3 of the trimmed block, in
  order: at most three entries, fewer when fewer lines follow the header. A blank line among
  them is kept as an empty entry, as in \<open>A by B | C\<close>, blank, \<open>X\<close>. Whitespace at the end of
  the pasted block, blank lines included, is removed by the trim and changes nothing in the
  result.
\<close>

theorem licenses_of_trimmed_block:
  assumes "parse_text_block_into_song block = Inr r"
  shows "licenses r = map py_strip (take 3 (drop 1 (py_split ''\<newline>'' (py_strip block))))
    \<and> length (licenses r) = min 3 (length (py_split ''\<newline>'' (py_strip block)) - 1)
    \<and> length (licenses r) \<le> 3
    \<and> (\<forall>ws. (\<forall>c\<in>set ws. isspace c) \<longrightarrow> parse_text_block_into_song (block @ ws) = Inr r)
    \<and> parse_text_block_into_song ''A by B | C\<newline>\<newline>X'' =
         Inr \<lparr>song_name = ''A'', artist_name = ''B'', artist_link = ''C'',
              licenses = [[], ''X'']\<rparr>"
proof -
  have l: "licenses r = map py_strip (take 3 (drop 1 (py_split ''\<newline>'' (py_strip block))))"
    using parse_cases [of block] assms by auto
  have n: "length (licenses r) = min 3 (length (py_split ''\<newline>'' (py_strip block)) - 1)"
    unfolding l by simp
  have b: "length (licenses r) \<le> 3" unfolding n by simp
  have t: "\<forall>ws. (\<forall>c\<in>set ws. isspace c) \<longrightarrow> parse_text_block_into_song (block @ ws) = Inr r"
    using assms by (simp add: parse_trailing_space)
  have e: "parse_text_block_into_song ''A by B | C\<newline>\<newline>X'' =
         Inr \<lparr>song_name = ''A'', artist_name = ''B'', artist_link = ''C'',
              licenses = [[], ''X'']\<rparr>"
    by code_simp
  show ?thesis
    by (rule conjI, rule l, rule conjI, rule n, rule conjI, rule b, rule conjI, rule t, rule e)
qed

theorem licenses_of_trimmed_block_witness:
  "parse_text_block_into_song ''T by A | L\<newline> one \<newline>\<newline>three\<newline>four'' =
     Inr \<lparr>song_name = ''T'', artist_name = ''A'', artist_link = ''L'',
          licenses = [''one'', [], ''three'']\<rparr>
   \<and> list_all isspace '' \<newline>\<newline>''
   \<and> parse_text_block_into_song (''T by A | L\<newline> one \<newline>\<newline>three\<newline>four'' @ '' \<newline>\<newline>'') =
     Inr \<lparr>song_name = ''T'', artist_name = ''A'', artist_link = ''L'',
          licenses = [''one'', [], ''three'']\<rparr>"
proof -
  let ?B = "''T by A | L\<newline> one \<newline>\<newline>three\<newline>four''"
  let ?r = "\<lparr>song_name = ''T'', artist_name = ''A'', artist_link = ''L'',
          licenses = [''one'', [], ''three'']\<rparr>"
  have p: "parse_text_block_into_song ?B = Inr ?r" by code_simp
  have w: "\<forall>c\<in>set '' \<newline>\<newline>''. isspace c" by (simp add: isspace_def)
  have t: "\<forall>ws. (\<forall>c\<in>set ws. isspace c) \<longrightarrow> parse_text_block_into_song (?B @ ws) = Inr ?r"
    using licenses_of_trimmed_block [OF p] by (elim conjE)
  have a: "parse_text_block_into_song (?B @ '' \<newline>\<newline>'') = Inr ?r"
    using t w by (elim allE [where x = "'' \<newline>\<newline>''"] impE)
  have w': "list_all isspace '' \<newline>\<newline>''" using w by (simp only: list_all_iff)
  show ?thesis by (rule conjI, rule p, rule conjI, rule w', rule a)
qed

text \<open>
  The claim as written fails on trailing blank lines. The pasted block \<open>A by B | C\<close>, \<open>X\<close>
  followed by two line breaks has the lines \<open>X\<close>, blank, blank in positions 1 to 3, and the
  parsed licenses are only \<open>X\<close>.
\<close>

theorem licenses_trailing_blank_counterexample:
  "map py_strip (take 3 (drop 1 (py_split ''\<newline>'' ''A by B | C\<newline>X\<newline>\<newline>''))) = [''X'', [], []]
   \<and> parse_text_block_into_song ''A by B | C\<newline>X\<newline>\<newline>'' =
        Inr \<lparr>song_name = ''A'', artist_name = ''B'', artist_link = ''C'', licenses = [''X'']\<rparr>"
proof -
  have 1: "map py_strip (take 3 (drop 1 (py_split ''\<newline>'' ''A by B | C\<newline>X\<newline>\<newline>'')))
      = [''X'', [], []]" by code_simp
  have 2: "parse_text_block_into_song ''A by B | C\<newline>X\<newline>\<newline>'' =
        Inr \<lparr>song_name = ''A'', artist_name = ''B'', artist_link = ''C'', licenses = [''X'']\<rparr>"
    by code_simp
  show ?thesis by (rule conjI, rule 1, rule 2)
qed

end
